theory Spec2Isabelle
  imports Complex_Main
begin

section \<open>The GPS node: state, decoding and the polling loop\<close>

text \<open>
  The embedding follows \<^verbatim>\<open>src/src/gps_node.cpp\<close>.

  \<^item> The C type \<^verbatim>\<open>float\<close> is modelled by exact real arithmetic; rounding is outside the
    model.  The concrete inputs evaluated below only involve values that binary
    floating point represents exactly, or say so.
  \<^item> A byte read from the UART is a \<^typ>\<open>char\<close>; its numeric value in integer arithmetic
    is \<open>of_char c\<close>, between 0 and 255 (plain \<^verbatim>\<open>char\<close> is unsigned on the ARM target the
    node is written for).
  \<^item> \<^verbatim>\<open>data_capture_array\<close> is an array of 40 bytes.  It is modelled as a function from
    indices to bytes of which only the indices below 40 are ever read or written; a
    write at an index of 40 or more is the fault \<open>Buffer_overrun\<close>, after which C++
    gives the program no meaning and the model stops.
  \<^item> \<^verbatim>\<open>enable_data_capture\<close> and \<^verbatim>\<open>data_is_valid\<close> are \<^verbatim>\<open>unsigned int\<close> variables that only
    ever hold 0 or 1 and are only tested for being non-zero: they are booleans.
    \<^verbatim>\<open>array_index\<close> is a natural number: the model stops at the first store at index 40,
    far below the point where an \<^verbatim>\<open>unsigned int\<close> would wrap.
  \<^item> The two globals \<^verbatim>\<open>latitude\<close>, \<^verbatim>\<open>longitude\<close> and the locals of \<^verbatim>\<open>main\<close> that live
    across iterations form one record.  What the node prints with \<^verbatim>\<open>ROS_INFO\<close> and
    what it hands to \<^verbatim>\<open>sensor_pub.publish\<close> are two lists in that record.
\<close>

subsection \<open>Characters the code compares with\<close>

abbreviation chr_L :: char where "chr_L \<equiv> CHR ''L''"
abbreviation chr_V :: char where "chr_V \<equiv> CHR ''V''"
abbreviation chr_N :: char where "chr_N \<equiv> CHR ''N''"
abbreviation chr_E :: char where "chr_E \<equiv> CHR ''E''"
abbreviation chr_CR :: char where "chr_CR \<equiv> CHR 0x0D"
abbreviation chr_LF :: char where "chr_LF \<equiv> CHR 0x0A"

subsection \<open>State\<close>

datatype info = Info_cannot_locate | Info_lat_long real real

datatype fault = Buffer_overrun

record gps_state =
  latitude :: real
  longitude :: real
  enable_data_capture :: bool
  data_is_valid :: bool
  array_index :: nat
  data_capture_array :: "nat \<Rightarrow> char"
  ros_info :: "info list"
  published :: "(real \<times> real) list"

text \<open>
  The state when the outer loop is entered.  The globals are zero-initialised and
  \<^verbatim>\<open>enable_data_capture\<close> is set to 0; \<^verbatim>\<open>data_is_valid\<close>, \<^verbatim>\<open>array_index\<close> and the array
  have no initialiser, so their first values are parameters.
\<close>

definition initial_state :: "bool \<Rightarrow> nat \<Rightarrow> (nat \<Rightarrow> char) \<Rightarrow> gps_state" where
  "initial_state v0 i0 a0 =
     \<lparr>latitude = 0, longitude = 0, enable_data_capture = False, data_is_valid = v0,
      array_index = i0, data_capture_array = a0, ros_info = [], published = []\<rparr>"

subsection \<open>\<^verbatim>\<open>ConvertDMSToDD\<close>\<close>

definition ConvertDMSToDD :: "int \<Rightarrow> int \<Rightarrow> real \<Rightarrow> int \<Rightarrow> real" where
  "ConvertDMSToDD deg mins sec dir =
     of_int dir * of_int deg + of_int mins / 60 + sec / 3600"

subsection \<open>\<^verbatim>\<open>ProcessGPSData\<close>\<close>

text \<open>\<^verbatim>\<open>GPS_data_array[X]-'0'\<close>, an \<^verbatim>\<open>int\<close>.\<close>

definition minus_zero :: "char \<Rightarrow> int" where
  "minus_zero c = of_char c - of_char (CHR ''0'')"

definition lat_deg :: "(nat \<Rightarrow> char) \<Rightarrow> int" where
  "lat_deg a = minus_zero (a 1) * 10 + minus_zero (a 2)"

definition lat_min :: "(nat \<Rightarrow> char) \<Rightarrow> int" where
  "lat_min a = minus_zero (a 3) * 10 + minus_zero (a 4)"

definition lat_sec :: "(nat \<Rightarrow> char) \<Rightarrow> real" where
  "lat_sec a = of_int (minus_zero (a 6) * 10 + minus_zero (a 7))
     + of_int (minus_zero (a 8)) / 10 + of_int (minus_zero (a 9)) / 100
     + of_int (minus_zero (a 10)) / 1000"

definition lat_dir :: "(nat \<Rightarrow> char) \<Rightarrow> int" where
  "lat_dir a = (if a 12 = chr_N then 1 else - 1)"

definition long_deg :: "(nat \<Rightarrow> char) \<Rightarrow> int" where
  "long_deg a = minus_zero (a 14) * 100 + minus_zero (a 15) * 10 + minus_zero (a 16)"

definition long_min :: "(nat \<Rightarrow> char) \<Rightarrow> int" where
  "long_min a = minus_zero (a 17) * 10 + minus_zero (a 18)"

definition long_sec :: "(nat \<Rightarrow> char) \<Rightarrow> real" where
  "long_sec a = of_int (minus_zero (a 20) * 10 + minus_zero (a 21))
     + of_int (minus_zero (a 22)) / 10 + of_int (minus_zero (a 23)) / 100
     + of_int (minus_zero (a 24)) / 1000"

definition long_dir :: "(nat \<Rightarrow> char) \<Rightarrow> int" where
  "long_dir a = (if a 26 = chr_E then 1 else - 1)"

definition ProcessGPSData :: "(nat \<Rightarrow> char) \<Rightarrow> gps_state \<Rightarrow> gps_state" where
  "ProcessGPSData a st =
     st\<lparr>latitude := ConvertDMSToDD (lat_deg a) (lat_min a) (lat_sec a) (lat_dir a),
        longitude := ConvertDMSToDD (long_deg a) (long_min a) (long_sec a) (long_dir a)\<rparr>"

subsection \<open>The body of the inner loop for one available byte\<close>

definition uart_step :: "char \<Rightarrow> gps_state \<Rightarrow> fault + gps_state" where
  "uart_step uartChar st =
     (if uartChar = chr_L then
        Inr (st\<lparr>enable_data_capture := True, array_index := 0, data_is_valid := True\<rparr>)
      else if enable_data_capture st then
        (if uartChar = chr_CR then
           (let st1 = st\<lparr>enable_data_capture := False\<rparr> in
            if data_is_valid st1 then Inr (ProcessGPSData (data_capture_array st1) st1)
            else Inr (st1\<lparr>ros_info := ros_info st1 @ [Info_cannot_locate]\<rparr>))
         else
           (let st1 = (if uartChar = chr_V then st\<lparr>data_is_valid := False\<rparr> else st) in
            if array_index st1 < 40 then
              Inr (st1\<lparr>data_capture_array := (data_capture_array st1)(array_index st1 := uartChar),
                       array_index := array_index st1 + 1\<rparr>)
            else Inl Buffer_overrun))
      else Inr st)"

text \<open>The bytes the transport has available in one cycle, fed one at a time.\<close>

fun feed :: "char list \<Rightarrow> gps_state \<Rightarrow> fault + gps_state" where
  "feed [] st = Inr st"
| "feed (c # cs) st = (case uart_step c st of Inl e \<Rightarrow> Inl e | Inr st' \<Rightarrow> feed cs st')"

text \<open>The branch taken when \<^verbatim>\<open>serialDataAvail\<close> reports nothing, before \<^verbatim>\<open>break\<close>.\<close>

definition no_data :: "gps_state \<Rightarrow> gps_state" where
  "no_data st = (if latitude st = 0 \<and> longitude st = 0 then st\<lparr>data_is_valid := False\<rparr> else st)"

text \<open>\<^verbatim>\<open>// Publish readings\<close>\<close>

definition publish_readings :: "gps_state \<Rightarrow> gps_state" where
  "publish_readings st =
     (if data_is_valid st then
        st\<lparr>ros_info := ros_info st @ [Info_lat_long (latitude st) (longitude st)],
           published := published st @ [(latitude st, longitude st)]\<rparr>
      else st)"

text \<open>
  One iteration of the outer loop: the inner loop consumes the bytes available
  in this cycle, then finds none and breaks; the readings are published.
\<close>

definition cycle :: "char list \<Rightarrow> gps_state \<Rightarrow> fault + gps_state" where
  "cycle bytes st =
     (case feed bytes st of Inl e \<Rightarrow> Inl e | Inr st' \<Rightarrow> Inr (publish_readings (no_data st')))"

text \<open>
  The outer loop, one list of available bytes for each iteration that \<^verbatim>\<open>ros::ok()\<close>
  admits.  How the transport cuts the byte stream into cycles is the environment's
  choice, so it is the argument.
\<close>

fun main_loop :: "char list list \<Rightarrow> gps_state \<Rightarrow> fault + gps_state" where
  "main_loop [] st = Inr st"
| "main_loop (bytes # rest) st =
     (case cycle bytes st of Inl e \<Rightarrow> Inl e | Inr st' \<Rightarrow> main_loop rest st')"

section \<open>Vocabulary of the statements\<close>

text \<open>
  The array after the bytes \<open>b\<close> have been stored from index \<open>i\<close> on, one index
  after the other, as the \<^verbatim>\<open>default\<close> branch of the \<^verbatim>\<open>switch\<close> does.
\<close>

fun captured :: "char list \<Rightarrow> nat \<Rightarrow> (nat \<Rightarrow> char) \<Rightarrow> (nat \<Rightarrow> char)" where
  "captured [] i a = a"
| "captured (c # cs) i a = captured cs (i + 1) (a(i := c))"

text \<open>
  A sentence body: the bytes between a start byte \<^verbatim>\<open>'L'\<close> and the terminator, with
  neither of the two among them, and no more of them than the array holds.
\<close>

definition body_ok :: "char list \<Rightarrow> bool" where
  "body_ok b \<longleftrightarrow> chr_L \<notin> set b \<and> chr_CR \<notin> set b \<and> length b \<le> 40"

text \<open>
  What precedes the start byte of a sentence on the wire: bytes without a start byte,
  which the loop skips, and then possibly an interrupted start (as the first \<^verbatim>\<open>L\<close> of
  \<^verbatim>\<open>$GPGLL\<close>) followed by bytes without a terminator that still fit the array.
\<close>

definition lead_ok :: "char list \<Rightarrow> bool" where
  "lead_ok l \<longleftrightarrow>
     (let r = dropWhile (\<lambda>c. c \<noteq> chr_L) l in chr_CR \<notin> set r \<and> length r \<le> 40)"

text \<open>A sentence on the wire, given by its lead and its body.\<close>

definition wire :: "char list \<times> char list \<Rightarrow> char list" where
  "wire s = fst s @ chr_L # snd s @ [chr_CR]"

text \<open>A sentence that carries the byte \<^verbatim>\<open>'V'\<close>, by which the module reports no position.\<close>

definition not_fixed_sentence :: "char list \<times> char list \<Rightarrow> bool" where
  "not_fixed_sentence s \<longleftrightarrow> lead_ok (fst s) \<and> body_ok (snd s) \<and> chr_V \<in> set (snd s)"

text \<open>
  The bytes of one cycle: whole sentences and then bytes without a start byte (the
  line feed after the last terminator).  No sentence and no byte is a starved cycle.
\<close>

definition burst :: "(char list \<times> char list) list \<times> char list \<Rightarrow> char list" where
  "burst c = concat (map wire (fst c)) @ snd c"

definition not_fixed_cycle :: "(char list \<times> char list) list \<times> char list \<Rightarrow> bool" where
  "not_fixed_cycle c \<longleftrightarrow> list_all not_fixed_sentence (fst c) \<and> chr_L \<notin> set (snd c)"

text \<open>No position has been decoded to anything but zero and nothing has been published.\<close>

definition startup :: "gps_state \<Rightarrow> bool" where
  "startup st \<longleftrightarrow> latitude st = 0 \<and> longitude st = 0 \<and> published st = []"

text \<open>
  The weight with which the byte at index \<open>k\<close> enters the degrees, the minutes and the
  seconds of the latitude and of the longitude; zero at every other index.
\<close>

definition lat_deg_place :: "nat \<Rightarrow> int" where
  "lat_deg_place k = (if k = 1 then 10 else if k = 2 then 1 else 0)"

definition lat_min_place :: "nat \<Rightarrow> int" where
  "lat_min_place k = (if k = 3 then 10 else if k = 4 then 1 else 0)"

definition lat_sec_place :: "nat \<Rightarrow> real" where
  "lat_sec_place k =
     (if k = 6 then 10 else if k = 7 then 1 else if k = 8 then 1 / 10
      else if k = 9 then 1 / 100 else if k = 10 then 1 / 1000 else 0)"

definition long_deg_place :: "nat \<Rightarrow> int" where
  "long_deg_place k = (if k = 14 then 100 else if k = 15 then 10 else if k = 16 then 1 else 0)"

definition long_min_place :: "nat \<Rightarrow> int" where
  "long_min_place k = (if k = 17 then 10 else if k = 18 then 1 else 0)"

definition long_sec_place :: "nat \<Rightarrow> real" where
  "long_sec_place k =
     (if k = 20 then 10 else if k = 21 then 1 else if k = 22 then 1 / 10
      else if k = 23 then 1 / 100 else if k = 24 then 1 / 1000 else 0)"

subsection \<open>Concrete states and arrays\<close>

definition sentence_array :: "char list \<Rightarrow> nat \<Rightarrow> char" where
  "sentence_array b = captured b 0 (\<lambda>_. CHR 0x00)"

definition st_startup :: gps_state where
  "st_startup = initial_state False 0 (\<lambda>_. CHR 0x00)"

text \<open>A state with a stored fix that has been published once.\<close>

definition st_fixed :: gps_state where
  "st_fixed = st_startup\<lparr>latitude := 10, longitude := 20, data_is_valid := True,
     published := [(10, 20)]\<rparr>"

text \<open>A state in the middle of a sentence, 16 bytes after its start byte.\<close>

definition st_armed :: gps_state where
  "st_armed = st_fixed\<lparr>enable_data_capture := True, array_index := 16\<rparr>"

subsection \<open>Cycles of whole sentences\<close>

text \<open>
  The latitude and the longitude that \<^verbatim>\<open>ProcessGPSData\<close> stores for an array that
  holds the body \<open>b\<close> from index 0 on.
\<close>

definition decoded :: "char list \<Rightarrow> real \<times> real" where
  "decoded b =
     (latitude (ProcessGPSData (sentence_array b) st_startup),
      longitude (ProcessGPSData (sentence_array b) st_startup))"

text \<open>
  A whole sentence on the wire: its body either carries \<^verbatim>\<open>'V'\<close> or has at least the 27
  bytes that \<^verbatim>\<open>ProcessGPSData\<close> reads (its last index is 26).
\<close>

definition whole_sentence :: "char list \<times> char list \<Rightarrow> bool" where
  "whole_sentence s \<longleftrightarrow>
     lead_ok (fst s) \<and> body_ok (snd s) \<and> (chr_V \<in> set (snd s) \<or> 27 \<le> length (snd s))"

text \<open>
  The view of a list of sentences that skips the ones carrying \<^verbatim>\<open>'V'\<close>: the coordinates
  stored after them, starting from the pair \<open>p\<close>; whether the last of them was without
  \<^verbatim>\<open>'V'\<close>, starting from the flag \<open>v\<close>; and one line for each sentence carrying \<^verbatim>\<open>'V'\<close>.
\<close>

fun stored_after :: "(char list \<times> char list) list \<Rightarrow> real \<times> real \<Rightarrow> real \<times> real" where
  "stored_after [] p = p"
| "stored_after (s # ss) p = stored_after ss (if chr_V \<in> set (snd s) then p else decoded (snd s))"

fun valid_after :: "(char list \<times> char list) list \<Rightarrow> bool \<Rightarrow> bool" where
  "valid_after [] v = v"
| "valid_after (s # ss) v = valid_after ss (chr_V \<notin> set (snd s))"

fun diagnostics :: "(char list \<times> char list) list \<Rightarrow> info list" where
  "diagnostics [] = []"
| "diagnostics (s # ss) =
     (if chr_V \<in> set (snd s) then [Info_cannot_locate] else []) @ diagnostics ss"

section \<open>Feeding bytes: general facts\<close>

lemma feed_append:
  "feed (xs @ ys) st = (case feed xs st of Inl e \<Rightarrow> Inl e | Inr st' \<Rightarrow> feed ys st')"
  by (induction xs arbitrary: st) (simp_all split: sum.splits)

text \<open>Outside a sentence every byte but the start byte is skipped.\<close>

lemma feed_ignored:
  "\<not> enable_data_capture st \<Longrightarrow> chr_L \<notin> set xs \<Longrightarrow> feed xs st = Inr st"
  by (induction xs) (auto simp: uart_step_def)

lemma uart_step_capture:
  "enable_data_capture st \<Longrightarrow> c \<noteq> chr_L \<Longrightarrow> c \<noteq> chr_CR \<Longrightarrow> array_index st < 40 \<Longrightarrow>
   uart_step c st =
     Inr (st\<lparr>data_is_valid := data_is_valid st \<and> chr_V \<noteq> c,
            array_index := array_index st + 1,
            data_capture_array := (data_capture_array st)(array_index st := c)\<rparr>)"
  by (auto simp: uart_step_def)

text \<open>Inside a sentence the bytes of a body are stored, and a \<^verbatim>\<open>'V'\<close> among them is remembered.\<close>

lemma feed_body:
  "enable_data_capture st \<Longrightarrow> chr_L \<notin> set b \<Longrightarrow> chr_CR \<notin> set b \<Longrightarrow>
   array_index st + length b \<le> 40 \<Longrightarrow>
   feed b st =
     Inr (st\<lparr>data_is_valid := data_is_valid st \<and> chr_V \<notin> set b,
            array_index := array_index st + length b,
            data_capture_array := captured b (array_index st) (data_capture_array st)\<rparr>)"
proof (induction b arbitrary: st)
  case Nil
  then show ?case by simp
next
  case (Cons c cs)
  let ?st1 = "st\<lparr>data_is_valid := data_is_valid st \<and> chr_V \<noteq> c,
            array_index := array_index st + 1,
            data_capture_array := (data_capture_array st)(array_index st := c)\<rparr>"
  from Cons.prems have step: "uart_step c st = Inr ?st1"
    by (intro uart_step_capture) auto
  from Cons.prems have "feed cs ?st1 =
      Inr (?st1\<lparr>data_is_valid := data_is_valid ?st1 \<and> chr_V \<notin> set cs,
            array_index := array_index ?st1 + length cs,
            data_capture_array := captured cs (array_index ?st1) (data_capture_array ?st1)\<rparr>)"
    by (intro Cons.IH) auto
  with step show ?case by simp
qed

lemma feed_framed_invalid:
  assumes "body_ok b" "chr_V \<in> set b"
  shows "feed (chr_L # b @ [chr_CR]) st =
     Inr (st\<lparr>enable_data_capture := False, data_is_valid := False, array_index := length b,
            data_capture_array := captured b 0 (data_capture_array st),
            ros_info := ros_info st @ [Info_cannot_locate]\<rparr>)"
proof -
  let ?st0 = "st\<lparr>enable_data_capture := True, array_index := 0, data_is_valid := True\<rparr>"
  have "feed b ?st0 = Inr (?st0\<lparr>data_is_valid := data_is_valid ?st0 \<and> chr_V \<notin> set b,
            array_index := array_index ?st0 + length b,
            data_capture_array := captured b (array_index ?st0) (data_capture_array ?st0)\<rparr>)"
    using assms by (intro feed_body) (simp_all add: body_ok_def)
  then show ?thesis using assms
    by (simp add: feed_append uart_step_def)
qed

lemma feed_framed_valid:
  assumes "body_ok b" "chr_V \<notin> set b"
  shows "feed (chr_L # b @ [chr_CR]) st =
     Inr (ProcessGPSData (captured b 0 (data_capture_array st))
           (st\<lparr>enable_data_capture := False, data_is_valid := True, array_index := length b,
               data_capture_array := captured b 0 (data_capture_array st)\<rparr>))"
proof -
  let ?st0 = "st\<lparr>enable_data_capture := True, array_index := 0, data_is_valid := True\<rparr>"
  have "feed b ?st0 = Inr (?st0\<lparr>data_is_valid := data_is_valid ?st0 \<and> chr_V \<notin> set b,
            array_index := array_index ?st0 + length b,
            data_capture_array := captured b (array_index ?st0) (data_capture_array ?st0)\<rparr>)"
    using assms by (intro feed_body) (simp_all add: body_ok_def)
  then show ?thesis using assms
    by (simp add: feed_append uart_step_def ProcessGPSData_def)
qed

text \<open>Only \<^verbatim>\<open>// Publish readings\<close> hands anything to the publisher.\<close>

lemma uart_step_published: "uart_step c st = Inr st' \<Longrightarrow> published st' = published st"
  by (auto simp: uart_step_def ProcessGPSData_def Let_def split: if_splits)

lemma feed_published: "feed bs st = Inr st' \<Longrightarrow> published st' = published st"
proof (induction bs arbitrary: st)
  case Nil
  then show ?case by simp
next
  case (Cons c cs)
  then obtain st1 where s1: "uart_step c st = Inr st1" and s2: "feed cs st1 = Inr st'"
    by (auto split: sum.splits)
  from Cons.IH [OF s2] uart_step_published [OF s1] show ?case by simp
qed

section \<open>The conversion\<close>

text \<open>
  C1.  The conversion is claimed to return the hemisphere sign times the whole sum
  \<open>degrees + minutes/60 + seconds/3600\<close>.  The code multiplies the sign into the degrees
  only.  For 1 degree 30 minutes 0 seconds with sign \<open>-1\<close> it returns \<open>-1/2\<close>, where the
  claimed law gives \<open>-3/2\<close>.  All values of this computation are exact in binary
  floating point.
\<close>

theorem ConvertDMSToDD_south_half:
  "ConvertDMSToDD 1 30 0 (- 1) = - (1 / 2)
   \<and> ConvertDMSToDD 1 30 0 (- 1) \<noteq> of_int (- 1) * (of_int 1 + of_int 30 / 60 + 0 / 3600)"
  by (simp add: ConvertDMSToDD_def)

section \<open>The capture array\<close>

text \<open>
  C2.  The framer is claimed to discard a sentence that outgrows the buffer and to leave
  the armed state, so that the buffer never holds more than its bound.  The code has
  no such check.  The body of a GLL sentence as the module sends it, from the start
  byte to the checksum, has 44 bytes.  After its first 40 bytes the array is full,
  capture is still enabled and nothing has been discarded; its 41st byte is written
  at index 40, past the end of the 40-byte array.
\<close>

theorem module_sentence_overruns:
  "feed (chr_L # '',4717.11364,N,00833.91565,E,092321.00,A,'') st =
     Inr (st\<lparr>enable_data_capture := True, data_is_valid := True, array_index := 40,
            data_capture_array :=
              captured '',4717.11364,N,00833.91565,E,092321.00,A,'' 0 (data_capture_array st)\<rparr>)
   \<and> feed (chr_L # '',4717.11364,N,00833.91565,E,092321.00,A,'' @ ''A*60'' @ [chr_CR]) st =
     Inl Buffer_overrun"
proof -
  let ?st0 = "st\<lparr>enable_data_capture := True, array_index := 0, data_is_valid := True\<rparr>"
  let ?b = "'',4717.11364,N,00833.91565,E,092321.00,A,''"
  have l: "length ?b = 40" by simp
  have "feed ?b ?st0 = Inr (?st0\<lparr>data_is_valid := data_is_valid ?st0 \<and> chr_V \<notin> set ?b,
            array_index := array_index ?st0 + length ?b,
            data_capture_array := captured ?b (array_index ?st0) (data_capture_array ?st0)\<rparr>)"
    by (rule feed_body) simp_all
  then have f: "feed ?b ?st0 = Inr (st\<lparr>enable_data_capture := True, data_is_valid := True,
            array_index := 40, data_capture_array := captured ?b 0 (data_capture_array st)\<rparr>)"
    unfolding l by simp
  have one: "feed (chr_L # ?b) st = feed ?b ?st0"
    by (simp add: uart_step_def)
  have two: "feed (chr_L # ?b @ ''A*60'' @ [chr_CR]) st = feed (?b @ ''A*60'' @ [chr_CR]) ?st0"
    by (simp add: uart_step_def)
  have three: "feed (?b @ ''A*60'' @ [chr_CR]) ?st0 = Inl Buffer_overrun"
    unfolding feed_append f by (simp add: uart_step_def)
  from one f two three show ?thesis by (simp only:)
qed

section \<open>Decoding\<close>

text \<open>
  C3, as stated: a sentence with a byte that is no digit where a digit is expected is
  rejected.  \<^verbatim>\<open>ProcessGPSData\<close> has no result and rejects nothing.  With \<^verbatim>\<open>A\<close> where the
  tens of the latitude degrees are expected it stores a latitude of 179 degrees and
  more: the \<^verbatim>\<open>A\<close> has counted as 17.
\<close>

theorem non_digit_decoded:
  "latitude (ProcessGPSData (sentence_array '',A916.45000,N,12311.12000,E'') st_startup)
     = 179 + 16 / 60 + 45 / 3600"
  by (simp add: sentence_array_def ProcessGPSData_def ConvertDMSToDD_def
      lat_deg_def lat_min_def lat_sec_def lat_dir_def minus_zero_def)

text \<open>
  C3, amended.  Decoding validates nothing and always stores a latitude and a longitude:
  the conversion of the degrees, minutes and seconds read from the array.  The byte \<open>c\<close>
  at an index enters each of them as its code minus 48, times the weight of the index in
  that field, whether \<open>c\<close> is a digit or not.
\<close>

theorem every_byte_counts:
  "latitude (ProcessGPSData a st) = ConvertDMSToDD (lat_deg a) (lat_min a) (lat_sec a) (lat_dir a)
   \<and> longitude (ProcessGPSData a st) =
       ConvertDMSToDD (long_deg a) (long_min a) (long_sec a) (long_dir a)
   \<and> lat_deg (a(k := c)) = lat_deg (a(k := CHR ''0'')) + lat_deg_place k * (of_char c - 48)
   \<and> lat_min (a(k := c)) = lat_min (a(k := CHR ''0'')) + lat_min_place k * (of_char c - 48)
   \<and> lat_sec (a(k := c)) =
       lat_sec (a(k := CHR ''0'')) + lat_sec_place k * of_int (of_char c - 48)
   \<and> long_deg (a(k := c)) = long_deg (a(k := CHR ''0'')) + long_deg_place k * (of_char c - 48)
   \<and> long_min (a(k := c)) = long_min (a(k := CHR ''0'')) + long_min_place k * (of_char c - 48)
   \<and> long_sec (a(k := c)) =
       long_sec (a(k := CHR ''0'')) + long_sec_place k * of_int (of_char c - 48)"
proof -
  have "latitude (ProcessGPSData a st) =
      ConvertDMSToDD (lat_deg a) (lat_min a) (lat_sec a) (lat_dir a)"
    and "longitude (ProcessGPSData a st) =
      ConvertDMSToDD (long_deg a) (long_min a) (long_sec a) (long_dir a)"
    by (simp_all add: ProcessGPSData_def)
  moreover have
    "lat_deg (a(k := c)) = lat_deg (a(k := CHR ''0'')) + lat_deg_place k * (of_char c - 48)"
    by (simp add: lat_deg_def lat_deg_place_def minus_zero_def)
  moreover have
    "lat_min (a(k := c)) = lat_min (a(k := CHR ''0'')) + lat_min_place k * (of_char c - 48)"
    by (simp add: lat_min_def lat_min_place_def minus_zero_def)
  moreover have
    "lat_sec (a(k := c)) = lat_sec (a(k := CHR ''0'')) + lat_sec_place k * of_int (of_char c - 48)"
    by (simp add: lat_sec_def lat_sec_place_def minus_zero_def)
  moreover have
    "long_deg (a(k := c)) = long_deg (a(k := CHR ''0'')) + long_deg_place k * (of_char c - 48)"
    by (simp add: long_deg_def long_deg_place_def minus_zero_def)
  moreover have
    "long_min (a(k := c)) = long_min (a(k := CHR ''0'')) + long_min_place k * (of_char c - 48)"
    by (simp add: long_min_def long_min_place_def minus_zero_def)
  moreover have
    "long_sec (a(k := c)) =
       long_sec (a(k := CHR ''0'')) + long_sec_place k * of_int (of_char c - 48)"
    by (simp add: long_sec_def long_sec_place_def minus_zero_def)
  ultimately show ?thesis by blast
qed

text \<open>
  C6, as stated: a hemisphere byte other than the four letters is rejected.  With \<^verbatim>\<open>X\<close>
  for the latitude and \<^verbatim>\<open>Q\<close> for the longitude the code stores 49 degrees south and
  123 degrees west.
\<close>

theorem unknown_hemisphere_decoded:
  "latitude (ProcessGPSData (sentence_array '',4900.00000,X,12300.00000,Q'') st_startup) = - 49
   \<and> longitude (ProcessGPSData (sentence_array '',4900.00000,X,12300.00000,Q'') st_startup)
       = - 123"
  by (simp add: sentence_array_def ProcessGPSData_def ConvertDMSToDD_def
      lat_deg_def lat_min_def lat_sec_def lat_dir_def minus_zero_def
      long_deg_def long_min_def long_sec_def long_dir_def)

text \<open>
  C6, amended.  Whatever byte \<open>c\<close> stands at the hemisphere index, decoding stores a
  coordinate: the latitude is converted with sign \<open>+1\<close> when \<open>c\<close> is \<^verbatim>\<open>N\<close> and with \<open>-1\<close>
  for every other byte, \<^verbatim>\<open>S\<close> among them; the longitude with \<open>+1\<close> when \<open>c\<close> is \<^verbatim>\<open>E\<close> and
  with \<open>-1\<close> for every other byte, \<^verbatim>\<open>W\<close> among them.
\<close>

theorem hemisphere_sign:
  "latitude (ProcessGPSData (a(12 := c)) st) =
     ConvertDMSToDD (lat_deg a) (lat_min a) (lat_sec a) (if c = chr_N then 1 else - 1)
   \<and> longitude (ProcessGPSData (a(26 := c)) st) =
     ConvertDMSToDD (long_deg a) (long_min a) (long_sec a) (if c = chr_E then 1 else - 1)"
  by (simp add: ProcessGPSData_def lat_deg_def lat_min_def lat_sec_def lat_dir_def
      long_deg_def long_min_def long_sec_def long_dir_def)

section \<open>Sentences marked as not fixed\<close>

text \<open>
  C9.  While a sentence is captured and the array still has room, a byte \<^verbatim>\<open>'V'\<close> at the
  current index, whatever that index is, clears \<^verbatim>\<open>data_is_valid\<close> and is stored at the
  index like any other byte; whatever bytes follow up to the terminator, the reading is
  then reported as not located and is not decoded.
\<close>

theorem V_anywhere_invalidates:
  assumes "enable_data_capture st" "array_index st < 40"
    "chr_L \<notin> set rest" "chr_CR \<notin> set rest" "array_index st + 1 + length rest \<le> 40"
  shows "uart_step chr_V st =
      Inr (st\<lparr>data_is_valid := False,
             data_capture_array := (data_capture_array st)(array_index st := chr_V),
             array_index := array_index st + 1\<rparr>)
    \<and> feed (chr_V # rest @ [chr_CR]) st =
      Inr (st\<lparr>enable_data_capture := False, data_is_valid := False,
             array_index := array_index st + 1 + length rest,
             data_capture_array := captured (chr_V # rest) (array_index st) (data_capture_array st),
             ros_info := ros_info st @ [Info_cannot_locate]\<rparr>)"
proof -
  have a: "uart_step chr_V st =
      Inr (st\<lparr>data_is_valid := False,
             data_capture_array := (data_capture_array st)(array_index st := chr_V),
             array_index := array_index st + 1\<rparr>)"
    using assms by (simp add: uart_step_def)
  have "feed (chr_V # rest) st =
     Inr (st\<lparr>data_is_valid := data_is_valid st \<and> chr_V \<notin> set (chr_V # rest),
            array_index := array_index st + length (chr_V # rest),
            data_capture_array := captured (chr_V # rest) (array_index st) (data_capture_array st)\<rparr>)"
    using assms by (intro feed_body) simp_all
  then have b: "feed ((chr_V # rest) @ [chr_CR]) st =
      Inr (st\<lparr>enable_data_capture := False, data_is_valid := False,
             array_index := array_index st + 1 + length rest,
             data_capture_array := captured (chr_V # rest) (array_index st) (data_capture_array st),
             ros_info := ros_info st @ [Info_cannot_locate]\<rparr>)"
    using assms(1) unfolding feed_append by (simp add: uart_step_def)
  from a b show ?thesis by simp
qed

theorem V_anywhere_invalidates_witness:
  "uart_step chr_V st_armed =
      Inr (st_armed\<lparr>data_is_valid := False,
             data_capture_array := (data_capture_array st_armed)(16 := chr_V),
             array_index := 17\<rparr>)
   \<and> feed (chr_V # '',N*4A'' @ [chr_CR]) st_armed =
      Inr (st_armed\<lparr>enable_data_capture := False, data_is_valid := False,
             array_index := 22,
             data_capture_array := captured (chr_V # '',N*4A'') 16 (data_capture_array st_armed),
             ros_info := ros_info st_armed @ [Info_cannot_locate]\<rparr>)"
proof -
  have i: "array_index st_armed = 16" and e: "enable_data_capture st_armed"
    by (simp_all add: st_armed_def)
  have "array_index st_armed < 40" "chr_L \<notin> set '',N*4A''" "chr_CR \<notin> set '',N*4A''"
    "array_index st_armed + 1 + length '',N*4A'' \<le> 40"
    by (simp_all add: i)
  from V_anywhere_invalidates [OF e this] show ?thesis
    by (simp add: i del: feed.simps)
qed




section \<open>Publishing\<close>

text \<open>
  C10.  When the stored latitude and longitude are both zero once the bytes of a cycle
  are consumed, the cycle clears \<^verbatim>\<open>data_is_valid\<close> and publishes nothing, whatever it has
  decoded; a sentence that decodes to latitude 0 and longitude 0 is therefore not
  published either.
\<close>

theorem zero_zero_suppressed:
  assumes "feed bytes st = Inr st1" "latitude st1 = 0" "longitude st1 = 0"
  shows "cycle bytes st = Inr (st1\<lparr>data_is_valid := False\<rparr>)
     \<and> published (st1\<lparr>data_is_valid := False\<rparr>) = published st"
  using assms feed_published [OF assms(1)]
  by (simp add: cycle_def no_data_def publish_readings_def)

theorem zero_zero_suppressed_witness:
  "map_sum id published
     (cycle (chr_L # '',0000.00000,N,00000.00000,E,225444,A'' @ [chr_CR]) st_fixed)
   = Inr [(10, 20)]
   \<and> map_sum id latitude
     (cycle (chr_L # '',0000.00000,N,00000.00000,E,225444,A'' @ [chr_CR]) st_fixed) = Inr 0"
proof -
  let ?b = "'',0000.00000,N,00000.00000,E,225444,A''"
  let ?a = "captured ?b 0 (data_capture_array st_fixed)"
  let ?st1 = "ProcessGPSData ?a
           (st_fixed\<lparr>enable_data_capture := False, data_is_valid := True, array_index := length ?b,
               data_capture_array := ?a\<rparr>)"
  have f: "feed (chr_L # ?b @ [chr_CR]) st_fixed = Inr ?st1"
    by (rule feed_framed_valid) (simp_all add: body_ok_def)
  have z: "latitude ?st1 = 0" "longitude ?st1 = 0"
    by (simp_all add: ProcessGPSData_def ConvertDMSToDD_def
      lat_deg_def lat_min_def lat_sec_def lat_dir_def minus_zero_def
      long_deg_def long_min_def long_sec_def long_dir_def)
  from zero_zero_suppressed [OF f z] z show ?thesis
    by (simp add: st_fixed_def)
qed

section \<open>Before the first fix\<close>

lemma uart_step_restart:
  assumes "enable_data_capture st" "c \<noteq> chr_CR" "array_index st < 40"
  shows "\<exists>st'. uart_step c st = Inr st' \<and> enable_data_capture st'
     \<and> array_index st' \<le> array_index st + 1
     \<and> latitude st' = latitude st \<and> longitude st' = longitude st
     \<and> published st' = published st"
  using assms by (simp add: uart_step_def)

lemma feed_restarts:
  assumes "enable_data_capture st" "chr_CR \<notin> set r" "array_index st + length r \<le> 40"
  shows "\<exists>st'. feed r st = Inr st' \<and> enable_data_capture st'
     \<and> latitude st' = latitude st \<and> longitude st' = longitude st
     \<and> published st' = published st"
  using assms
proof (induction r arbitrary: st)
  case Nil
  then show ?case by simp
next
  case (Cons c cs)
  from Cons.prems obtain st1 where s1: "uart_step c st = Inr st1"
    and e1: "enable_data_capture st1" and i1: "array_index st1 \<le> array_index st + 1"
    and k1: "latitude st1 = latitude st" "longitude st1 = longitude st"
       "published st1 = published st"
    using uart_step_restart [of st c] by auto
  from Cons.prems i1 have "array_index st1 + length cs \<le> 40" by simp
  with Cons.IH [OF e1] Cons.prems(2) obtain st' where "feed cs st1 = Inr st'"
    "enable_data_capture st'" "latitude st' = latitude st1" "longitude st' = longitude st1"
    "published st' = published st1"
    by auto
  with s1 k1 show ?case by simp
qed

lemma feed_lead:
  assumes "\<not> enable_data_capture st" "lead_ok l"
  shows "\<exists>st'. feed l st = Inr st'
     \<and> latitude st' = latitude st \<and> longitude st' = longitude st
     \<and> published st' = published st"
proof -
  let ?q = "takeWhile (\<lambda>c. c \<noteq> chr_L) l" and ?r = "dropWhile (\<lambda>c. c \<noteq> chr_L) l"
  have q: "feed ?q st = Inr st"
    using assms(1) by (intro feed_ignored) (auto dest: set_takeWhileD)
  have split: "feed l st = feed ?r st"
    using feed_append [of ?q ?r st] q by simp
  show ?thesis
  proof (cases ?r)
    case Nil
    with split show ?thesis by simp
  next
    case (Cons c cs)
    then have c: "c = chr_L" using hd_dropWhile [of "\<lambda>c. c \<noteq> chr_L" l] by auto
    let ?st0 = "st\<lparr>enable_data_capture := True, array_index := 0, data_is_valid := True\<rparr>"
    from assms(2) Cons have "chr_CR \<notin> set cs" "array_index ?st0 + length cs \<le> 40"
      by (simp_all add: lead_ok_def)
    with feed_restarts [of ?st0 cs] obtain st' where "feed cs ?st0 = Inr st'"
      "latitude st' = latitude st" "longitude st' = longitude st" "published st' = published st"
      by auto
    with split Cons c show ?thesis by (simp add: uart_step_def)
  qed
qed

lemma feed_not_fixed_sentence:
  assumes "\<not> enable_data_capture st" "not_fixed_sentence s"
  shows "\<exists>st'. feed (wire s) st = Inr st' \<and> \<not> enable_data_capture st'
     \<and> latitude st' = latitude st \<and> longitude st' = longitude st
     \<and> published st' = published st"
proof -
  from assms have l: "lead_ok (fst s)" and b: "body_ok (snd s)" and v: "chr_V \<in> set (snd s)"
    by (simp_all add: not_fixed_sentence_def)
  from feed_lead [OF assms(1) l] obtain st1 where s1: "feed (fst s) st = Inr st1"
    and k1: "latitude st1 = latitude st" "longitude st1 = longitude st"
      "published st1 = published st"
    by auto
  show ?thesis
    unfolding wire_def feed_append s1 using k1
    by (simp only: feed_framed_invalid [OF b v] sum.case) simp
qed

lemma feed_not_fixed_sentences:
  assumes "\<not> enable_data_capture st" "list_all not_fixed_sentence ss"
  shows "\<exists>st'. feed (concat (map wire ss)) st = Inr st' \<and> \<not> enable_data_capture st'
     \<and> latitude st' = latitude st \<and> longitude st' = longitude st
     \<and> published st' = published st"
  using assms
proof (induction ss arbitrary: st)
  case Nil
  then show ?case by simp
next
  case (Cons s ss)
  from Cons.prems feed_not_fixed_sentence [of st s] obtain st1 where
    s1: "feed (wire s) st = Inr st1" and e1: "\<not> enable_data_capture st1"
    and k1: "latitude st1 = latitude st" "longitude st1 = longitude st"
      "published st1 = published st"
    by auto
  from Cons.prems have "list_all not_fixed_sentence ss" by simp
  from Cons.IH [OF e1 this] s1 k1 show ?case
    by (auto simp: feed_append)
qed

lemma cycle_not_fixed:
  assumes "\<not> enable_data_capture st" "startup st" "not_fixed_cycle c"
  shows "\<exists>st'. cycle (burst c) st = Inr st' \<and> \<not> enable_data_capture st' \<and> startup st'"
proof -
  from assms(3) have ss: "list_all not_fixed_sentence (fst c)" and t: "chr_L \<notin> set (snd c)"
    by (simp_all add: not_fixed_cycle_def)
  from feed_not_fixed_sentences [OF assms(1) ss] obtain st1 where
    s1: "feed (concat (map wire (fst c))) st = Inr st1" and e1: "\<not> enable_data_capture st1"
    and k1: "latitude st1 = latitude st" "longitude st1 = longitude st"
      "published st1 = published st"
    by auto
  have "feed (burst c) st = Inr st1"
    unfolding burst_def feed_append s1 using feed_ignored [OF e1 t] by simp
  with e1 k1 assms(2) show ?thesis
    by (simp add: cycle_def no_data_def publish_readings_def startup_def)
qed

lemma main_loop_not_fixed:
  assumes "\<not> enable_data_capture st" "startup st" "list_all not_fixed_cycle cs"
  shows "\<exists>st'. main_loop (map burst cs) st = Inr st' \<and> startup st'"
  using assms
proof (induction cs arbitrary: st)
  case Nil
  then show ?case by simp
next
  case (Cons c cs)
  from Cons.prems cycle_not_fixed [of st c] obtain st1 where
    "cycle (burst c) st = Inr st1" "\<not> enable_data_capture st1" "startup st1"
    by auto
  moreover from Cons.prems have "list_all not_fixed_cycle cs" by simp
  ultimately show ?case using Cons.IH [of st1] by auto
qed

text \<open>
  C5.  From the state in which the node starts, whatever the values of its
  uninitialised variables, any number of cycles that each bring only whole not-fixed
  sentences, or no byte at all, runs to its end and publishes nothing.
\<close>

theorem no_emission_before_first_fix:
  assumes "list_all not_fixed_cycle cs"
  shows "\<exists>st'. main_loop (map burst cs) (initial_state v0 i0 a0) = Inr st' \<and> published st' = []"
proof -
  have "\<not> enable_data_capture (initial_state v0 i0 a0)" "startup (initial_state v0 i0 a0)"
    by (simp_all add: initial_state_def startup_def)
  from main_loop_not_fixed [OF this assms] show ?thesis
    by (auto simp: startup_def)
qed

theorem no_emission_before_first_fix_witness:
  "\<exists>st'. main_loop
       (map burst
         [([], []),
          ([(''$GPG'', '',,,,,225444.00,V,N*4A''), (chr_LF # ''$GPGL'', '',,,,,225445.00,V,N*4B'')],
           [chr_LF]),
          ([], [])])
       (initial_state True 7 (\<lambda>_. CHR ''x'')) = Inr st'
     \<and> published st' = []"
  using no_emission_before_first_fix
    [of "[([], []),
          ([(''$GPG'', '',,,,,225444.00,V,N*4A''), (chr_LF # ''$GPGL'', '',,,,,225445.00,V,N*4B'')],
           [chr_LF]),
          ([], [])]" True 7 "\<lambda>_. CHR ''x''"]
  by (simp add: not_fixed_cycle_def not_fixed_sentence_def lead_ok_def body_ok_def)

section \<open>Cycles of whole sentences\<close>

lemma captured_below: "k < i \<Longrightarrow> captured b i a k = a k"
  by (induction b arbitrary: i a) simp_all

lemma captured_at: "i \<le> k \<Longrightarrow> k < i + length b \<Longrightarrow> captured b i a k = b ! (k - i)"
proof (induction b arbitrary: i a)
  case Nil
  then show ?case by simp
next
  case (Cons c cs)
  show ?case
  proof (cases "k = i")
    case True
    then show ?thesis by (simp add: captured_below)
  next
    case False
    with Cons.prems have "Suc i \<le> k" "k < Suc i + length cs" by simp_all
    from Cons.IH [OF this] False Cons.prems show ?thesis
      by (simp add: Suc_diff_le nth_Cons')
  qed
qed

lemma captured_agree:
  assumes "k < length b"
  shows "captured b 0 a k = captured b 0 a' k"
  using assms by (simp add: captured_at)

lemma decoded_captured:
  assumes "27 \<le> length b"
  shows "latitude (ProcessGPSData (captured b 0 a) st) = fst (decoded b)"
    and "longitude (ProcessGPSData (captured b 0 a) st) = snd (decoded b)"
proof -
  have eq: "captured b 0 a k = sentence_array b k" if "k < 27" for k
    unfolding sentence_array_def using that assms by (intro captured_agree) simp
  show "latitude (ProcessGPSData (captured b 0 a) st) = fst (decoded b)"
    by (simp add: decoded_def ProcessGPSData_def lat_deg_def lat_min_def lat_sec_def
        lat_dir_def eq)
  show "longitude (ProcessGPSData (captured b 0 a) st) = snd (decoded b)"
    by (simp add: decoded_def ProcessGPSData_def long_deg_def long_min_def long_sec_def
        long_dir_def eq)
qed

lemma uart_step_no_terminator:
  assumes "uart_step c st = Inr st'" "c \<noteq> chr_CR"
  shows "ros_info st' = ros_info st"
  using assms by (auto simp: uart_step_def Let_def split: if_splits)

lemma feed_no_terminator:
  assumes "feed r st = Inr st'" "chr_CR \<notin> set r"
  shows "ros_info st' = ros_info st"
  using assms
proof (induction r arbitrary: st)
  case Nil
  then show ?case by simp
next
  case (Cons c cs)
  then obtain st1 where s1: "uart_step c st = Inr st1" and s2: "feed cs st1 = Inr st'"
    by (auto split: sum.splits)
  from Cons.prems have "c \<noteq> chr_CR" "chr_CR \<notin> set cs" by auto
  with Cons.IH [OF s2] uart_step_no_terminator [OF s1] show ?case by simp
qed

lemma feed_lead_info:
  assumes "\<not> enable_data_capture st" "lead_ok l" "feed l st = Inr st'"
  shows "ros_info st' = ros_info st"
proof -
  let ?q = "takeWhile (\<lambda>c. c \<noteq> chr_L) l" and ?r = "dropWhile (\<lambda>c. c \<noteq> chr_L) l"
  have q: "feed ?q st = Inr st"
    using assms(1) by (intro feed_ignored) (auto dest: set_takeWhileD)
  have "feed l st = feed ?r st"
    using feed_append [of ?q ?r st] q by simp
  with assms(3) have "feed ?r st = Inr st'" by simp
  moreover from assms(2) have "chr_CR \<notin> set ?r" by (simp add: lead_ok_def Let_def)
  ultimately show ?thesis by (rule feed_no_terminator)
qed

lemma feed_whole_sentence:
  assumes "\<not> enable_data_capture st" "whole_sentence s"
  shows "\<exists>st'. feed (wire s) st = Inr st' \<and> \<not> enable_data_capture st'
     \<and> (latitude st', longitude st') =
         (if chr_V \<in> set (snd s) then (latitude st, longitude st) else decoded (snd s))
     \<and> data_is_valid st' = (chr_V \<notin> set (snd s))
     \<and> ros_info st' =
         ros_info st @ (if chr_V \<in> set (snd s) then [Info_cannot_locate] else [])
     \<and> published st' = published st"
proof -
  from assms have l: "lead_ok (fst s)" and b: "body_ok (snd s)"
    and c: "chr_V \<in> set (snd s) \<or> 27 \<le> length (snd s)"
    by (simp_all add: whole_sentence_def)
  from feed_lead [OF assms(1) l] obtain st1 where s1: "feed (fst s) st = Inr st1"
    and k1: "latitude st1 = latitude st" "longitude st1 = longitude st"
      "published st1 = published st"
    by auto
  from feed_lead_info [OF assms(1) l s1] have i1: "ros_info st1 = ros_info st" .
  show ?thesis
  proof (cases "chr_V \<in> set (snd s)")
    case True
    show ?thesis
      unfolding wire_def feed_append s1 using k1 i1 True
      by (simp only: feed_framed_invalid [OF b True] sum.case) simp
  next
    case False
    with c have len: "27 \<le> length (snd s)" by simp
    show ?thesis
      unfolding wire_def feed_append s1 using k1 i1 False decoded_captured [OF len]
      by (simp only: feed_framed_valid [OF b False] sum.case)
         (simp add: ProcessGPSData_def prod_eq_iff)
  qed
qed

lemma feed_whole_sentences:
  assumes "\<not> enable_data_capture st" "list_all whole_sentence ss"
  shows "\<exists>st'. feed (concat (map wire ss)) st = Inr st' \<and> \<not> enable_data_capture st'
     \<and> (latitude st', longitude st') = stored_after ss (latitude st, longitude st)
     \<and> data_is_valid st' = valid_after ss (data_is_valid st)
     \<and> ros_info st' = ros_info st @ diagnostics ss
     \<and> published st' = published st"
  using assms
proof (induction ss arbitrary: st)
  case Nil
  then show ?case by simp
next
  case (Cons s ss)
  from Cons.prems have w: "whole_sentence s" and ws: "list_all whole_sentence ss" by simp_all
  from feed_whole_sentence [OF Cons.prems(1) w] obtain st1 where
    s1: "feed (wire s) st = Inr st1" and e1: "\<not> enable_data_capture st1"
    and c1: "(latitude st1, longitude st1) =
         (if chr_V \<in> set (snd s) then (latitude st, longitude st) else decoded (snd s))"
    and v1: "data_is_valid st1 = (chr_V \<notin> set (snd s))"
    and i1: "ros_info st1 =
         ros_info st @ (if chr_V \<in> set (snd s) then [Info_cannot_locate] else [])"
    and p1: "published st1 = published st"
    by blast
  from Cons.IH [OF e1 ws] obtain st' where
    s2: "feed (concat (map wire ss)) st1 = Inr st'" and e2: "\<not> enable_data_capture st'"
    and c2: "(latitude st', longitude st') = stored_after ss (latitude st1, longitude st1)"
    and v2: "data_is_valid st' = valid_after ss (data_is_valid st1)"
    and i2: "ros_info st' = ros_info st1 @ diagnostics ss"
    and p2: "published st' = published st1"
    by blast
  have "feed (concat (map wire (s # ss))) st = Inr st'"
    by (simp add: feed_append s1 s2)
  moreover have "(latitude st', longitude st') = stored_after (s # ss) (latitude st, longitude st)"
    using c2 c1 by simp
  moreover have "data_is_valid st' = valid_after (s # ss) (data_is_valid st)"
    using v2 v1 by simp
  moreover have "ros_info st' = ros_info st @ diagnostics (s # ss)"
    using i2 i1 by simp
  ultimately show ?case using e2 p2 p1 by auto
qed

text \<open>
  C4, as stated: a fix derived from malformed or invalid sentence data is never
  forwarded.  The code checks nothing but the byte \<^verbatim>\<open>'V'\<close>, and only at the terminator of
  the sentence that carries it.  A sentence with \<^verbatim>\<open>X\<close> where the tens of the latitude
  minutes are expected is decoded (the \<^verbatim>\<open>X\<close> counting as 40) and the result is
  published.  And a sentence carrying \<^verbatim>\<open>'V'\<close> that is followed by a start byte and a
  terminator with nothing between them is decoded after all, from the bytes it left in
  the array, and published.
\<close>

theorem malformed_sentence_published:
  "map_sum id published
     (cycle (chr_L # '',49X6.45000,N,12311.12000,E'' @ [chr_CR]) st_startup)
   = Inr [(49 + 406 / 60 + 45 / 3600, 123 + 11 / 60 + 12 / 3600)]
   \<and> map_sum id published
     (cycle (chr_L # '',4900.00000,N,12300.00000,E,225444,V'' @ [chr_CR, chr_LF]
          @ [chr_L, chr_CR]) st_startup)
   = Inr [(49, 123)]"
  by (simp add: cycle_def st_startup_def initial_state_def uart_step_def no_data_def
      publish_readings_def ProcessGPSData_def ConvertDMSToDD_def
      lat_deg_def lat_min_def lat_sec_def lat_dir_def minus_zero_def
      long_deg_def long_min_def long_sec_def long_dir_def)

text \<open>
  C4, amended.  In a cycle that starts outside a sentence and brings whole sentences
  (each with a body of at most 40 bytes that carries \<^verbatim>\<open>'V'\<close> or has the 27 bytes the
  decoder reads), a sentence carrying \<^verbatim>\<open>'V'\<close> is never decoded and shows only as one
  \<^verbatim>\<open>cannot locate position\<close> line: the coordinates stored at the end are those decoded
  from the last sentence without \<^verbatim>\<open>'V'\<close>, or the ones stored before when there is none.
  The cycle publishes at most one message, the stored coordinates, and it does so
  exactly when \<^verbatim>\<open>data_is_valid\<close> is set at its end: when the last sentence is without
  \<^verbatim>\<open>'V'\<close> (with no sentence: when the flag was set before) and the stored coordinates
  are not both zero.  A cycle whose last sentence carries \<^verbatim>\<open>'V'\<close> publishes nothing.
\<close>

theorem invalid_sentences_not_published:
  assumes "\<not> enable_data_capture st" "list_all whole_sentence ss" "chr_L \<notin> set trail"
  shows "\<exists>st'. cycle (burst (ss, trail)) st = Inr st'
     \<and> (latitude st', longitude st') = stored_after ss (latitude st, longitude st)
     \<and> data_is_valid st' =
         (valid_after ss (data_is_valid st) \<and> stored_after ss (latitude st, longitude st) \<noteq> (0, 0))
     \<and> ros_info st' = ros_info st @ diagnostics ss
         @ (if data_is_valid st' then [Info_lat_long (latitude st') (longitude st')] else [])
     \<and> published st' = published st
         @ (if data_is_valid st' then [(latitude st', longitude st')] else [])"
proof -
  from feed_whole_sentences [OF assms(1,2)] obtain st1 where
    s1: "feed (concat (map wire ss)) st = Inr st1" and e1: "\<not> enable_data_capture st1"
    and c1: "(latitude st1, longitude st1) = stored_after ss (latitude st, longitude st)"
    and v1: "data_is_valid st1 = valid_after ss (data_is_valid st)"
    and i1: "ros_info st1 = ros_info st @ diagnostics ss"
    and p1: "published st1 = published st"
    by blast
  have f: "feed (burst (ss, trail)) st = Inr st1"
    unfolding burst_def using feed_ignored [OF e1 assms(3)] by (simp add: feed_append s1)
  let ?st' = "publish_readings (no_data st1)"
  have z: "(stored_after ss (latitude st, longitude st) \<noteq> (0, 0))
      = (\<not> (latitude st1 = 0 \<and> longitude st1 = 0))"
    using c1 [symmetric] by (simp add: prod_eq_iff)
  have "cycle (burst (ss, trail)) st = Inr ?st'"
    by (simp add: cycle_def f)
  moreover have k: "latitude ?st' = latitude st1" "longitude ?st' = longitude st1"
    by (simp_all add: no_data_def publish_readings_def)
  then have "(latitude ?st', longitude ?st') = stored_after ss (latitude st, longitude st)"
    using c1 by (simp only:)
  moreover have v: "data_is_valid ?st' =
      (valid_after ss (data_is_valid st) \<and> stored_after ss (latitude st, longitude st) \<noteq> (0, 0))"
    unfolding z using v1 by (auto simp: no_data_def publish_readings_def)
  moreover have "ros_info ?st' = ros_info st @ diagnostics ss
         @ (if data_is_valid ?st' then [Info_lat_long (latitude ?st') (longitude ?st')] else [])"
    using i1 by (simp add: no_data_def publish_readings_def)
  moreover have "published ?st' = published st
         @ (if data_is_valid ?st' then [(latitude ?st', longitude ?st')] else [])"
    using p1 by (simp add: no_data_def publish_readings_def)
  ultimately show ?thesis by blast
qed


theorem invalid_sentences_not_published_witness:
  "\<exists>st'. cycle (burst
        ([(''$GPG'', '',4900.00000,N,12300.00000,E,225444,A''),
          (chr_LF # ''$GPGL'', '',,,,,225445.00,V,N*4B'')], [chr_LF])) st_fixed = Inr st'
     \<and> (latitude st', longitude st') = (49, 123)
     \<and> \<not> data_is_valid st'
     \<and> ros_info st' = [Info_cannot_locate]
     \<and> published st' = [(10, 20)]"
proof -
  let ?ss = "[(''$GPG'', '',4900.00000,N,12300.00000,E,225444,A''),
          (chr_LF # ''$GPGL'', '',,,,,225445.00,V,N*4B'')]"
  have e: "\<not> enable_data_capture st_fixed"
    and i: "ros_info st_fixed = []" "published st_fixed = [(10, 20)]"
    by (simp_all add: st_fixed_def st_startup_def initial_state_def)
  have w: "list_all whole_sentence ?ss"
    by (simp add: whole_sentence_def lead_ok_def body_ok_def)
  have t: "chr_L \<notin> set [chr_LF]" by simp
  have s: "stored_after ?ss (latitude st_fixed, longitude st_fixed) = (49, 123)"
    by (simp add: decoded_def sentence_array_def ProcessGPSData_def ConvertDMSToDD_def
      lat_deg_def lat_min_def lat_sec_def lat_dir_def minus_zero_def
      long_deg_def long_min_def long_sec_def long_dir_def)
  have v: "valid_after ?ss (data_is_valid st_fixed) = False" by simp
  have d: "diagnostics ?ss = [Info_cannot_locate]" by simp
  from invalid_sentences_not_published [OF e w t] obtain st' where
    "cycle (burst (?ss, [chr_LF])) st_fixed = Inr st'"
    "(latitude st', longitude st') = stored_after ?ss (latitude st_fixed, longitude st_fixed)"
    "data_is_valid st' = (valid_after ?ss (data_is_valid st_fixed)
       \<and> stored_after ?ss (latitude st_fixed, longitude st_fixed) \<noteq> (0, 0))"
    "ros_info st' = ros_info st_fixed @ diagnostics ?ss
       @ (if data_is_valid st' then [Info_lat_long (latitude st') (longitude st')] else [])"
    "published st' = published st_fixed
       @ (if data_is_valid st' then [(latitude st', longitude st')] else [])"
    by blast
  then have "cycle (burst (?ss, [chr_LF])) st_fixed = Inr st'
     \<and> (latitude st', longitude st') = (49, 123)
     \<and> \<not> data_is_valid st'
     \<and> ros_info st' = [Info_cannot_locate]
     \<and> published st' = [(10, 20)]"
    unfolding s v d i by simp
  then show ?thesis by (rule exI)
qed

section \<open>Two sentences in one cycle\<close>

text \<open>
  C8, as stated: of two sentences read in one cycle each takes effect.  Both are
  decoded, but the readings are published once, after the loop over the available
  bytes: for a sentence at 49 north 123 east followed by one at 10 north 20 east the
  only message is the second position.
\<close>

theorem first_of_two_not_published:
  "map_sum id published
     (cycle (chr_L # '',4900.00000,N,12300.00000,E'' @ [chr_CR, chr_LF]
           @ chr_L # '',1000.00000,N,02000.00000,E'' @ [chr_CR, chr_LF]) st_startup)
   = Inr [(10, 20)]"
  by (simp add: cycle_def st_startup_def initial_state_def uart_step_def no_data_def
      publish_readings_def ProcessGPSData_def ConvertDMSToDD_def
      lat_deg_def lat_min_def lat_sec_def lat_dir_def minus_zero_def
      long_deg_def long_min_def long_sec_def long_dir_def)

text \<open>
  C8, amended.  Of two framed sentences without \<^verbatim>\<open>'V'\<close> read in one cycle, each is framed
  and decoded by itself, in order: after the first one the stored coordinates are those
  decoded from its bytes, after the second one those decoded from the bytes of the
  second.  The cycle then publishes once: the coordinates of the second sentence, or
  nothing when these are both zero.
\<close>

theorem two_sentences_one_message:
  fixes st :: gps_state and a1 a2 :: "nat \<Rightarrow> char"
  assumes "body_ok b1" "chr_V \<notin> set b1" "body_ok b2" "chr_V \<notin> set b2"
    "chr_L \<notin> set mid" "chr_L \<notin> set trail"
  defines "a1 \<equiv> captured b1 0 (data_capture_array st)"
  defines "a2 \<equiv> captured b2 0 a1"
  shows "feed (chr_L # b1 @ [chr_CR]) st =
      Inr (ProcessGPSData a1 (st\<lparr>enable_data_capture := False, data_is_valid := True,
             array_index := length b1, data_capture_array := a1\<rparr>))
    \<and> feed (chr_L # b1 @ [chr_CR] @ mid @ chr_L # b2 @ [chr_CR] @ trail) st =
      Inr (ProcessGPSData a2 (st\<lparr>enable_data_capture := False, data_is_valid := True,
             array_index := length b2, data_capture_array := a2\<rparr>))
    \<and> map_sum id published
        (cycle (chr_L # b1 @ [chr_CR] @ mid @ chr_L # b2 @ [chr_CR] @ trail) st) =
      Inr (published st @
        (if latitude (ProcessGPSData a2 st) = 0 \<and> longitude (ProcessGPSData a2 st) = 0 then []
         else [(latitude (ProcessGPSData a2 st), longitude (ProcessGPSData a2 st))]))"
proof -
  let ?st1 = "ProcessGPSData a1 (st\<lparr>enable_data_capture := False, data_is_valid := True,
             array_index := length b1, data_capture_array := a1\<rparr>)"
  let ?st2 = "ProcessGPSData a2 (st\<lparr>enable_data_capture := False, data_is_valid := True,
             array_index := length b2, data_capture_array := a2\<rparr>)"
  have f1: "feed (chr_L # b1 @ [chr_CR]) st = Inr ?st1"
    unfolding a1_def by (rule feed_framed_valid [OF assms(1,2)])
  have e1: "\<not> enable_data_capture ?st1" by (simp add: ProcessGPSData_def)
  have m: "feed mid ?st1 = Inr ?st1"
    by (rule feed_ignored [OF e1 assms(5)])
  have f2: "feed (chr_L # b2 @ [chr_CR]) ?st1 = Inr ?st2"
    unfolding feed_framed_valid [OF assms(3,4)] a2_def
    by (simp add: ProcessGPSData_def)
  have e2: "\<not> enable_data_capture ?st2" by (simp add: ProcessGPSData_def)
  have t: "feed trail ?st2 = Inr ?st2"
    by (rule feed_ignored [OF e2 assms(6)])
  have "feed ((chr_L # b1 @ [chr_CR]) @ mid @ (chr_L # b2 @ [chr_CR]) @ trail) st = Inr ?st2"
    unfolding feed_append f1 by (simp add: m f2 t del: feed.simps)
  then have whole:
    "feed (chr_L # b1 @ [chr_CR] @ mid @ chr_L # b2 @ [chr_CR] @ trail) st = Inr ?st2"
    by simp
  have "map_sum id published
        (cycle (chr_L # b1 @ [chr_CR] @ mid @ chr_L # b2 @ [chr_CR] @ trail) st) =
      Inr (published st @
        (if latitude (ProcessGPSData a2 st) = 0 \<and> longitude (ProcessGPSData a2 st) = 0 then []
         else [(latitude (ProcessGPSData a2 st), longitude (ProcessGPSData a2 st))]))"
    unfolding cycle_def whole
    by (simp add: no_data_def publish_readings_def ProcessGPSData_def)
  with f1 whole show ?thesis by simp
qed

theorem two_sentences_one_message_witness:
  "map_sum id latitude (feed (chr_L # '',3000.00000,N,04000.00000,E'' @ [chr_CR]) st_fixed)
     = Inr 30
   \<and> map_sum id published
     (cycle (chr_L # '',3000.00000,N,04000.00000,E'' @ [chr_CR] @ [chr_LF]
           @ chr_L # '',5000.00000,N,06000.00000,E'' @ [chr_CR] @ [chr_LF]) st_fixed)
     = Inr [(10, 20), (50, 60)]"
  using two_sentences_one_message
    [of "'',3000.00000,N,04000.00000,E''" "'',5000.00000,N,06000.00000,E''"
       "[chr_LF]" "[chr_LF]" st_fixed]
  by (simp add: body_ok_def st_fixed_def st_startup_def initial_state_def
      ProcessGPSData_def ConvertDMSToDD_def
      lat_deg_def lat_min_def lat_sec_def lat_dir_def minus_zero_def
      long_deg_def long_min_def long_sec_def long_dir_def)

end
